theory Spec2Isabelle
  imports Main "HOL-Library.Multiset" "HOL-Library.Product_Lexorder" "HOL-Library.List_Lexorder"
begin

section \<open>Cubes to clauses: the pipeline of \<^verbatim>\<open>examples/pyeda/python_code/common.py\<close>\<close>

text \<open>
  The module turns a batch of cubes (lists of signed integers) into a sorted clause list:
  \<^verbatim>\<open>backdoor_to_clauses\<close> calls \<^verbatim>\<open>cubes_to_dnf\<close>, \<^verbatim>\<open>minimize_dnf\<close>, negates, converts to CNF
  and calls \<^verbatim>\<open>cnf_to_clauses\<close>. The Boolean algebra engine (pyeda) and the Espresso minimizer
  are imported libraries: they enter the model as a record of functions, and what a proof
  needs of them is a stated contract. Python's unbounded integers are \<^typ>\<open>int\<close>, a raised
  exception is the \<open>Inl\<close> of a sum, the dictionary \<^verbatim>\<open>var_map\<close> is a map, and the calls made to the
  engine that allocate a variable or run the minimizer are recorded in a trace.
\<close>

subsection \<open>Sign helpers\<close>

definition bool2int :: "bool \<Rightarrow> int" where
  "bool2int b = (if b then 1 else 0)"

definition bool2sign :: "bool \<Rightarrow> int" where
  "bool2sign b = (if b then - 1 else 1)"

definition signed :: "int \<Rightarrow> bool \<Rightarrow> int" where
  "signed x s = bool2sign s * x"

subsection \<open>Expressions of the engine\<close>

text \<open>
  A variable handle carries its names and its indices, as pyeda's \<^verbatim>\<open>Variable\<close> does;
  \<^verbatim>\<open>exprvar(name, index)\<close> makes the handle with that one name and that one index.
  Expressions are syntax trees over handles: \<^verbatim>\<open>~e\<close>, \<^verbatim>\<open>And(*es)\<close> and \<^verbatim>\<open>Or(*es)\<close>. The engine may
  simplify what it builds; the tree stands for any expression with the same meaning.
\<close>

datatype variable = Variable (names: "string list") (indices: "int list")

definition exprvar :: "string \<Rightarrow> int \<Rightarrow> variable" where
  "exprvar name index = Variable [name] [index]"

datatype expr = Var variable | Not_e expr | And "expr list" | Or "expr list"

datatype error =
    IndexError
  | AssertionError_cube "int list" "int list"
  | AssertionError_dnf
  | AssertionError_cnf
  | ValueError nat
  | KeyError int
  | OracleError

text \<open>
  \<open>AssertionError_cube cube variables\<close> is the assertion of \<^verbatim>\<open>cubes_to_dnf\<close> whose message
  shows the offending cube and the expected magnitudes; \<open>AssertionError_dnf\<close> and
  \<open>AssertionError_cnf\<close> are the two shape assertions; \<open>ValueError n\<close> is the failed unpacking
  of \<^verbatim>\<open>(min_dnf,) = ...\<close> on a collection of \<open>n\<close> elements; \<open>OracleError\<close> is a failure inside
  the minimizer itself, which the engine signals by returning \<open>None\<close>.
\<close>

record engine =
  espresso_exprs :: "expr \<Rightarrow> expr list option"
  to_cnf :: "expr \<Rightarrow> expr"
  is_dnf :: "expr \<Rightarrow> bool"
  is_cnf :: "expr \<Rightarrow> bool"
  encode_cnf :: "expr \<Rightarrow> (int \<rightharpoonup> variable) \<times> nat \<times> int list list"

datatype event = Exprvar_call string int | Espresso_call expr

subsection \<open>\<^verbatim>\<open>cubes_to_dnf\<close>\<close>

text \<open>The first loop: every cube must list the magnitudes of the first cube, in order.\<close>

fun check_cubes :: "int list \<Rightarrow> int list list \<Rightarrow> error + unit" where
  "check_cubes variables [] = Inr ()"
| "check_cubes variables (cube # cubes) =
     (if variables = map abs cube then check_cubes variables cubes
      else Inl (AssertionError_cube cube variables))"

record enc_state =
  var_map :: "int \<rightharpoonup> variable"
  trace :: "event list"

text \<open>The body of the inner loop: look the magnitude up, allocate on a miss, negate on a
  negative literal.\<close>

definition lit_expr :: "enc_state \<Rightarrow> int \<Rightarrow> expr \<times> enc_state" where
  "lit_expr st lit =
     (let var = abs lit in
        case var_map st var of
          None \<Rightarrow>
            (let h = exprvar ''x'' var;
                 st1 = st\<lparr>var_map := (var_map st)(var \<mapsto> h),
                          trace := trace st @ [Exprvar_call ''x'' var]\<rparr>
             in (if lit < 0 then Not_e (Var h) else Var h, st1))
        | Some h \<Rightarrow> (if lit < 0 then Not_e (Var h) else Var h, st))"

fun cube_lits :: "enc_state \<Rightarrow> int list \<Rightarrow> expr list \<times> enc_state" where
  "cube_lits st [] = ([], st)"
| "cube_lits st (lit # lits) =
     (case lit_expr st lit of (e, st1) \<Rightarrow>
        (case cube_lits st1 lits of (es, st2) \<Rightarrow> (e # es, st2)))"

fun cubes_exprs :: "enc_state \<Rightarrow> int list list \<Rightarrow> expr list \<times> enc_state" where
  "cubes_exprs st [] = ([], st)"
| "cubes_exprs st (cube # cubes) =
     (case cube_lits st cube of (lits_expr, st1) \<Rightarrow>
        (case cubes_exprs st1 cubes of (es, st2) \<Rightarrow> (And lits_expr # es, st2)))"

definition cubes_to_dnf :: "engine \<Rightarrow> int list list \<Rightarrow> (error + expr) \<times> event list" where
  "cubes_to_dnf eng cubes =
     (case cubes of
        [] \<Rightarrow> (Inl IndexError, [])
      | cube0 # _ \<Rightarrow>
          (case check_cubes (map abs cube0) cubes of
             Inl e \<Rightarrow> (Inl e, [])
           | Inr _ \<Rightarrow>
               (case cubes_exprs \<lparr>var_map = Map.empty, trace = []\<rparr> cubes of
                  (cubes_expr, st) \<Rightarrow>
                    (if is_dnf eng (Or cubes_expr) then (Inr (Or cubes_expr), trace st)
                     else (Inl AssertionError_dnf, trace st)))))"

subsection \<open>\<^verbatim>\<open>minimize_dnf\<close> and \<^verbatim>\<open>cnf_to_clauses\<close>\<close>

definition minimize_dnf :: "engine \<Rightarrow> expr \<Rightarrow> (error + expr list) \<times> event list" where
  "minimize_dnf eng dnf =
     (case espresso_exprs eng dnf of None \<Rightarrow> Inl OracleError | Some min_dnf \<Rightarrow> Inr min_dnf,
      [Espresso_call dnf])"

text \<open>One literal of an encoded clause: \<^verbatim>\<open>litmap[abs(lit)].indices[0]\<close>, signed by \<^verbatim>\<open>lit < 0\<close>.\<close>

definition clause_lit :: "(int \<rightharpoonup> variable) \<Rightarrow> int \<Rightarrow> error + int" where
  "clause_lit litmap lit =
     (case litmap (abs lit) of
        None \<Rightarrow> Inl (KeyError (abs lit))
      | Some x \<Rightarrow>
          (case indices x of
             [] \<Rightarrow> Inl IndexError
           | v # _ \<Rightarrow> Inr (signed v (lit < 0))))"

fun clause_lits :: "(int \<rightharpoonup> variable) \<Rightarrow> int list \<Rightarrow> error + int list" where
  "clause_lits litmap [] = Inr []"
| "clause_lits litmap (lit # lits) =
     (case clause_lit litmap lit of
        Inl e \<Rightarrow> Inl e
      | Inr l \<Rightarrow>
          (case clause_lits litmap lits of
             Inl e \<Rightarrow> Inl e
           | Inr c \<Rightarrow> Inr (l # c)))"

fun encode_clauses :: "(int \<rightharpoonup> variable) \<Rightarrow> int list list \<Rightarrow> error + int list list" where
  "encode_clauses litmap [] = Inr []"
| "encode_clauses litmap (clause # clauses) =
     (case clause_lits litmap clause of
        Inl e \<Rightarrow> Inl e
      | Inr c \<Rightarrow>
          (case encode_clauses litmap clauses of
             Inl e \<Rightarrow> Inl e
           | Inr result \<Rightarrow> Inr (sort_key abs c # result)))"

definition clause_key :: "int list \<Rightarrow> nat \<times> int list" where
  "clause_key x = (length x, map abs x)"

definition cnf_to_clauses :: "engine \<Rightarrow> expr \<Rightarrow> error + int list list" where
  "cnf_to_clauses eng cnf =
     (if \<not> is_cnf eng cnf then Inl AssertionError_cnf
      else case encode_cnf eng cnf of
             (litmap, nvars, clauses) \<Rightarrow>
               (case encode_clauses litmap clauses of
                  Inl e \<Rightarrow> Inl e
                | Inr result \<Rightarrow> Inr (sort_key clause_key result)))"

subsection \<open>\<^verbatim>\<open>backdoor_to_clauses\<close>\<close>

definition backdoor_to_clauses :: "engine \<Rightarrow> int list list \<Rightarrow> (error + int list list) \<times> event list" where
  "backdoor_to_clauses eng easy =
     (case cubes_to_dnf eng easy of
        (Inl e, tr) \<Rightarrow> (Inl e, tr)
      | (Inr dnf, tr) \<Rightarrow>
          (case minimize_dnf eng dnf of
             (Inl e, tr2) \<Rightarrow> (Inl e, tr @ tr2)
           | (Inr ms, tr2) \<Rightarrow>
               (case ms of
                  [min_dnf] \<Rightarrow> (cnf_to_clauses eng (to_cnf eng (Not_e min_dnf)), tr @ tr2)
                | _ \<Rightarrow> (Inl (ValueError (length ms)), tr @ tr2))))"

section \<open>Meaning of cubes, clauses and expressions\<close>

text \<open>
  An assignment gives a truth value to every variable id. A literal \<open>l\<close> speaks of the
  variable \<open>abs l\<close> and is negated when \<open>l < 0\<close>, which is how \<^verbatim>\<open>cubes_to_dnf\<close> reads it. A cube
  is the conjunction of its literals and a batch the disjunction of its cubes; a clause is
  the disjunction of its literals and a clause list the conjunction of its clauses.
\<close>

definition lit_holds :: "(int \<Rightarrow> bool) \<Rightarrow> int \<Rightarrow> bool" where
  "lit_holds \<sigma> l = (if l < 0 then \<not> \<sigma> (abs l) else \<sigma> (abs l))"

definition cube_holds :: "(int \<Rightarrow> bool) \<Rightarrow> int list \<Rightarrow> bool" where
  "cube_holds \<sigma> cube = list_all (lit_holds \<sigma>) cube"

definition cubes_hold :: "(int \<Rightarrow> bool) \<Rightarrow> int list list \<Rightarrow> bool" where
  "cubes_hold \<sigma> cubes = list_ex (cube_holds \<sigma>) cubes"

definition clause_holds :: "(int \<Rightarrow> bool) \<Rightarrow> int list \<Rightarrow> bool" where
  "clause_holds \<sigma> c = list_ex (lit_holds \<sigma>) c"

definition clauses_hold :: "(int \<Rightarrow> bool) \<Rightarrow> int list list \<Rightarrow> bool" where
  "clauses_hold \<sigma> cs = list_all (clause_holds \<sigma>) cs"

definition magnitudes :: "int list list \<Rightarrow> int set" where
  "magnitudes cubes = abs ` (\<Union>cube \<in> set cubes. set cube)"

fun eval :: "(variable \<Rightarrow> bool) \<Rightarrow> expr \<Rightarrow> bool" where
  "eval a (Var x) = a x"
| "eval a (Not_e e) = (\<not> eval a e)"
| "eval a (And es) = list_all (eval a) es"
| "eval a (Or es) = list_ex (eval a) es"

fun vars_list :: "expr \<Rightarrow> variable list" where
  "vars_list (Var x) = [x]"
| "vars_list (Not_e e) = vars_list e"
| "vars_list (And es) = concat (map vars_list es)"
| "vars_list (Or es) = concat (map vars_list es)"

definition vars_of :: "expr \<Rightarrow> variable set" where
  "vars_of e = set (vars_list e)"

text \<open>A handle stands for the variable id that is its first index.\<close>

definition var_assign :: "(int \<Rightarrow> bool) \<Rightarrow> variable \<Rightarrow> bool" where
  "var_assign \<sigma> x = (case indices x of [] \<Rightarrow> False | v # _ \<Rightarrow> \<sigma> v)"

text \<open>The expression that the two nested loops of \<^verbatim>\<open>cubes_to_dnf\<close> build, in closed form.\<close>

definition lit_to_expr :: "int \<Rightarrow> expr" where
  "lit_to_expr lit =
     (if lit < 0 then Not_e (Var (exprvar ''x'' (abs lit))) else Var (exprvar ''x'' (abs lit)))"

definition cubes_dnf :: "int list list \<Rightarrow> expr" where
  "cubes_dnf cubes = Or (map (\<lambda>cube. And (map lit_to_expr cube)) cubes)"

definition good_map :: "(int \<rightharpoonup> variable) \<Rightarrow> bool" where
  "good_map vm = (\<forall>v h. vm v = Some h \<longrightarrow> h = exprvar ''x'' v)"

text \<open>The dictionary \<^verbatim>\<open>var_map\<close> as the two loops of \<^verbatim>\<open>cubes_to_dnf\<close> leave it.\<close>

definition final_var_map :: "int list list \<Rightarrow> int \<rightharpoonup> variable" where
  "final_var_map cubes = var_map (snd (cubes_exprs \<lparr>var_map = Map.empty, trace = []\<rparr> cubes))"


section \<open>Contracts of the engine\<close>

text \<open>
  Two expressions are equivalent when they agree under every assignment of the handles.
  An encoded literal \<open>l\<close> of \<^verbatim>\<open>encode_cnf\<close> speaks of the handle \<open>litmap (abs l)\<close>, negated when
  \<open>l < 0\<close>. \<open>engine_equiv\<close> says that the minimizer's single cover, the CNF conversion and the
  clause encoding keep the meaning; \<open>engine_support\<close> says that none of them brings in a
  handle its argument does not have.
\<close>

definition equivalent :: "expr \<Rightarrow> expr \<Rightarrow> bool" where
  "equivalent e1 e2 = (\<forall>a. eval a e1 = eval a e2)"

definition encoded_lit_holds :: "(variable \<Rightarrow> bool) \<Rightarrow> (int \<rightharpoonup> variable) \<Rightarrow> int \<Rightarrow> bool" where
  "encoded_lit_holds a litmap l =
     (case litmap (abs l) of None \<Rightarrow> False | Some x \<Rightarrow> (if l < 0 then \<not> a x else a x))"

definition engine_equiv :: "engine \<Rightarrow> bool" where
  "engine_equiv eng =
     ((\<forall>e m. espresso_exprs eng e = Some [m] \<longrightarrow> equivalent m e) \<and>
      (\<forall>e. equivalent (to_cnf eng e) e) \<and>
      (\<forall>e litmap nvars clauses a.
          is_cnf eng e \<longrightarrow> encode_cnf eng e = (litmap, nvars, clauses) \<longrightarrow>
          eval a e = list_all (list_ex (encoded_lit_holds a litmap)) clauses))"

definition engine_support :: "engine \<Rightarrow> bool" where
  "engine_support eng =
     ((\<forall>e m. espresso_exprs eng e = Some [m] \<longrightarrow> vars_of m \<subseteq> vars_of e) \<and>
      (\<forall>e. vars_of (to_cnf eng e) \<subseteq> vars_of e) \<and>
      (\<forall>e litmap nvars clauses.
          is_cnf eng e \<longrightarrow> encode_cnf eng e = (litmap, nvars, clauses) \<longrightarrow>
          (\<forall>c \<in> set clauses. \<forall>l \<in> set c. \<exists>x \<in> vars_of e. litmap (abs l) = Some x)))"

section \<open>A reference engine\<close>

text \<open>
  A small engine that meets both contracts, used to run the pipeline on concrete batches:
  the minimizer returns its argument as the only cover, the CNF conversion applies De
  Morgan's laws to a negated disjunction of terms, and the clause encoding numbers the
  handles of the expression from 1 in the order of their first occurrence.
\<close>

fun is_lit :: "expr \<Rightarrow> bool" where
  "is_lit (Var x) = True"
| "is_lit (Not_e (Var x)) = True"
| "is_lit _ = False"

fun ref_is_term :: "expr \<Rightarrow> bool" where
  "ref_is_term (And ls) = list_all is_lit ls"
| "ref_is_term _ = False"

fun ref_is_dnf :: "expr \<Rightarrow> bool" where
  "ref_is_dnf (Or ts) = list_all ref_is_term ts"
| "ref_is_dnf _ = False"

fun ref_is_clause :: "expr \<Rightarrow> bool" where
  "ref_is_clause (Or ls) = list_all is_lit ls"
| "ref_is_clause _ = False"

fun ref_is_cnf :: "expr \<Rightarrow> bool" where
  "ref_is_cnf (And cs) = list_all ref_is_clause cs"
| "ref_is_cnf _ = False"

fun neg_lit :: "expr \<Rightarrow> expr" where
  "neg_lit (Not_e e) = e"
| "neg_lit e = Not_e e"

fun neg_term :: "expr \<Rightarrow> expr" where
  "neg_term (And ls) = Or (map neg_lit ls)"
| "neg_term e = Or [neg_lit e]"

fun ref_to_cnf :: "expr \<Rightarrow> expr" where
  "ref_to_cnf (Not_e (Or ts)) = And (map neg_term ts)"
| "ref_to_cnf e = e"

fun index_of :: "'a \<Rightarrow> 'a list \<Rightarrow> nat" where
  "index_of x [] = 0"
| "index_of x (y # ys) = (if x = y then 0 else Suc (index_of x ys))"

definition ref_litmap :: "variable list \<Rightarrow> int \<rightharpoonup> variable" where
  "ref_litmap vs i = (if 1 \<le> i \<and> i \<le> int (length vs) then Some (vs ! nat (i - 1)) else None)"

fun lit_code :: "variable list \<Rightarrow> expr \<Rightarrow> int" where
  "lit_code vs (Var x) = int (index_of x vs) + 1"
| "lit_code vs (Not_e (Var x)) = - (int (index_of x vs) + 1)"
| "lit_code vs _ = 0"

fun clause_codes :: "variable list \<Rightarrow> expr \<Rightarrow> int list" where
  "clause_codes vs (Or ls) = map (lit_code vs) ls"
| "clause_codes vs _ = []"

fun cnf_codes :: "variable list \<Rightarrow> expr \<Rightarrow> int list list" where
  "cnf_codes vs (And cs) = map (clause_codes vs) cs"
| "cnf_codes vs _ = []"

definition ref_encode_cnf :: "expr \<Rightarrow> (int \<rightharpoonup> variable) \<times> nat \<times> int list list" where
  "ref_encode_cnf e =
     (let vs = remdups (vars_list e) in (ref_litmap vs, length vs, cnf_codes vs e))"

definition ref_engine :: engine where
  "ref_engine =
     \<lparr>espresso_exprs = (\<lambda>e. Some [e]), to_cnf = ref_to_cnf, is_dnf = ref_is_dnf,
      is_cnf = ref_is_cnf, encode_cnf = ref_encode_cnf\<rparr>"



section \<open>What the encoder builds\<close>

lemma signed_simps: "signed x True = - x" "signed x False = x"
  by (simp_all add: signed_def bool2sign_def)

lemma check_cubes_Inr: "(check_cubes vs cubes = Inr u) = (\<forall>cube \<in> set cubes. map abs cube = vs)"
  by (induction cubes) auto

lemma check_cubes_mismatch:
  "cube \<in> set cubes \<Longrightarrow> map abs cube \<noteq> vs \<Longrightarrow> \<exists>c. check_cubes vs cubes = Inl (AssertionError_cube c vs)"
  by (induction cubes) auto

lemma lit_expr_good:
  assumes "good_map (var_map st)" and "lit_expr st lit = (e, st1)"
  shows "e = lit_to_expr lit \<and> good_map (var_map st1) \<and>
         dom (var_map st1) = insert (abs lit) (dom (var_map st))"
  using assms
  by (auto simp: lit_expr_def Let_def good_map_def lit_to_expr_def split: option.splits if_splits)


lemma cube_lits_good:
  "good_map (var_map st) \<Longrightarrow> cube_lits st cube = (es, st1) \<Longrightarrow>
   es = map lit_to_expr cube \<and> good_map (var_map st1) \<and>
   dom (var_map st1) = dom (var_map st) \<union> abs ` set cube"
proof (induction cube arbitrary: st es st1)
  case Nil
  then show ?case by simp
next
  case (Cons lit lits)
  obtain e sta where a: "lit_expr st lit = (e, sta)" by (cases "lit_expr st lit")
  obtain es' stb where b: "cube_lits sta lits = (es', stb)" by (cases "cube_lits sta lits")
  from lit_expr_good [OF Cons.prems(1) a]
  have ga: "e = lit_to_expr lit" "good_map (var_map sta)"
    "dom (var_map sta) = insert (abs lit) (dom (var_map st))" by simp_all
  from Cons.IH [OF ga(2) b]
  have gb: "es' = map lit_to_expr lits" "good_map (var_map stb)"
    "dom (var_map stb) = dom (var_map sta) \<union> abs ` set lits" by simp_all
  from Cons.prems(2) a b have "es = e # es'" "st1 = stb" by simp_all
  with ga gb show ?case by auto
qed

lemma cubes_exprs_good:
  "good_map (var_map st) \<Longrightarrow> cubes_exprs st cubes = (es, st1) \<Longrightarrow>
   Or es = cubes_dnf cubes \<and> good_map (var_map st1) \<and>
   dom (var_map st1) = dom (var_map st) \<union> magnitudes cubes"
proof (induction cubes arbitrary: st es st1)
  case Nil
  then show ?case by (simp add: cubes_dnf_def magnitudes_def)
next
  case (Cons cube cubes)
  obtain ls sta where a: "cube_lits st cube = (ls, sta)" by (cases "cube_lits st cube")
  obtain es' stb where b: "cubes_exprs sta cubes = (es', stb)" by (cases "cubes_exprs sta cubes")
  from cube_lits_good [OF Cons.prems(1) a]
  have ga: "ls = map lit_to_expr cube" "good_map (var_map sta)"
    "dom (var_map sta) = dom (var_map st) \<union> abs ` set cube" by simp_all
  from Cons.IH [OF ga(2) b]
  have gb: "Or es' = cubes_dnf cubes" "good_map (var_map stb)"
    "dom (var_map stb) = dom (var_map sta) \<union> magnitudes cubes" by simp_all
  from Cons.prems(2) a b have "es = And ls # es'" "st1 = stb" by simp_all
  with ga gb show ?case by (auto simp: cubes_dnf_def magnitudes_def)
qed

lemma good_map_empty: "good_map Map.empty"
  by (simp add: good_map_def)

text \<open>Cubes over different sets of magnitudes have different lists of magnitudes.\<close>

lemma set_mismatch_list_mismatch:
  "abs ` set cube \<noteq> abs ` set cube0 \<Longrightarrow> map abs cube \<noteq> map abs cube0"
  by (metis set_map)

lemma cubes_to_dnf_mismatch:
  assumes "cube \<in> set cubes" and "map abs cube \<noteq> map abs (hd cubes)"
  shows "\<exists>c. cubes_to_dnf eng cubes = (Inl (AssertionError_cube c (map abs (hd cubes))), [])"
proof -
  from assms(1) obtain cube0 rest where c: "cubes = cube0 # rest" by (cases cubes) auto
  from check_cubes_mismatch [OF assms(1), of "map abs (hd cubes)"] assms(2)
  obtain c where "check_cubes (map abs (hd cubes)) cubes = Inl (AssertionError_cube c (map abs (hd cubes)))"
    by auto
  with c show ?thesis by (auto simp: cubes_to_dnf_def)
qed



lemma cubes_to_dnf_match:
  assumes "cubes \<noteq> []" and "\<forall>cube \<in> set cubes. map abs cube = map abs (hd cubes)"
  shows "\<exists>tr. cubes_to_dnf eng cubes =
           (if is_dnf eng (cubes_dnf cubes) then Inr (cubes_dnf cubes) else Inl AssertionError_dnf, tr)"
proof -
  from assms(1) obtain cube0 rest where c: "cubes = cube0 # rest" by (cases cubes) auto
  from assms(2) have chk: "check_cubes (map abs cube0) (cube0 # rest) = Inr ()"
    unfolding c check_cubes_Inr by simp
  obtain es st where e: "cubes_exprs \<lparr>var_map = Map.empty, trace = []\<rparr> (cube0 # rest) = (es, st)"
    by (cases "cubes_exprs \<lparr>var_map = Map.empty, trace = []\<rparr> (cube0 # rest)")
  have "good_map (var_map \<lparr>var_map = Map.empty, trace = []\<rparr>)" by (simp add: good_map_empty)
  from cubes_exprs_good [OF this e] have d: "Or es = cubes_dnf (cube0 # rest)" by simp
  have "cubes_to_dnf eng (cube0 # rest) =
      (if is_dnf eng (Or es) then Inr (Or es) else Inl AssertionError_dnf, trace st)"
    unfolding cubes_to_dnf_def by (simp add: chk e del: check_cubes.simps cubes_exprs.simps)
  then show ?thesis unfolding c d by blast
qed

lemma cubes_to_dnf_Inr:
  assumes "cubes_to_dnf eng cubes = (Inr dnf, tr)"
  shows "cubes \<noteq> [] \<and> (\<forall>cube \<in> set cubes. map abs cube = map abs (hd cubes)) \<and>
         dnf = cubes_dnf cubes \<and> is_dnf eng dnf"
proof -
  from assms have ne: "cubes \<noteq> []" by (auto simp: cubes_to_dnf_def)
  have m: "\<forall>cube \<in> set cubes. map abs cube = map abs (hd cubes)"
  proof (rule ccontr)
    assume "\<not> ?thesis"
    then obtain cube where "cube \<in> set cubes" "map abs cube \<noteq> map abs (hd cubes)" by auto
    from cubes_to_dnf_mismatch [OF this, of eng] assms show False by auto
  qed
  from cubes_to_dnf_match [OF ne m, of eng] obtain tr' where
    "cubes_to_dnf eng cubes =
           (if is_dnf eng (cubes_dnf cubes) then Inr (cubes_dnf cubes) else Inl AssertionError_dnf, tr')"
    by blast
  with assms have "dnf = cubes_dnf cubes \<and> is_dnf eng dnf" by (simp split: if_splits)
  with ne m show ?thesis by blast
qed

section \<open>Meaning of the expression built\<close>

lemma eval_lit_to_expr: "eval (var_assign \<sigma>) (lit_to_expr l) = lit_holds \<sigma> l"
  by (simp add: lit_to_expr_def lit_holds_def var_assign_def exprvar_def)

lemma eval_cubes_dnf: "eval (var_assign \<sigma>) (cubes_dnf cubes) = cubes_hold \<sigma> cubes"
  by (simp add: cubes_dnf_def cubes_hold_def cube_holds_def list_ex_iff list_all_iff eval_lit_to_expr)

lemma vars_of_lit_to_expr: "vars_of (lit_to_expr l) = {exprvar ''x'' (abs l)}"
  by (simp add: vars_of_def lit_to_expr_def)

lemma vars_of_cubes_dnf: "vars_of (cubes_dnf cubes) = exprvar ''x'' ` magnitudes cubes"
proof -
  have "\<And>l. set (vars_list (lit_to_expr l)) = {exprvar ''x'' (abs l)}"
    using vars_of_lit_to_expr by (simp add: vars_of_def)
  then show ?thesis
    by (auto simp: vars_of_def cubes_dnf_def magnitudes_def)
qed

section \<open>The stages of the pipeline\<close>

lemma backdoor_Inl:
  "cubes_to_dnf eng easy = (Inl e, tr) \<Longrightarrow> backdoor_to_clauses eng easy = (Inl e, tr)"
  by (simp add: backdoor_to_clauses_def)

lemma backdoor_oracle_fails:
  "cubes_to_dnf eng easy = (Inr dnf, tr) \<Longrightarrow> espresso_exprs eng dnf = None \<Longrightarrow>
   backdoor_to_clauses eng easy = (Inl OracleError, tr @ [Espresso_call dnf])"
  by (simp add: backdoor_to_clauses_def minimize_dnf_def)

lemma backdoor_single:
  "cubes_to_dnf eng easy = (Inr dnf, tr) \<Longrightarrow> espresso_exprs eng dnf = Some [m] \<Longrightarrow>
   backdoor_to_clauses eng easy =
     (cnf_to_clauses eng (to_cnf eng (Not_e m)), tr @ [Espresso_call dnf])"
  by (simp add: backdoor_to_clauses_def minimize_dnf_def)

lemma backdoor_not_single:
  "cubes_to_dnf eng easy = (Inr dnf, tr) \<Longrightarrow> espresso_exprs eng dnf = Some ms \<Longrightarrow>
   length ms \<noteq> 1 \<Longrightarrow>
   backdoor_to_clauses eng easy = (Inl (ValueError (length ms)), tr @ [Espresso_call dnf])"
  by (cases ms) (simp_all add: backdoor_to_clauses_def minimize_dnf_def split: list.splits)

lemma cnf_to_clauses_Inr:
  assumes "cnf_to_clauses eng cnf = Inr clauses"
  shows "\<exists>litmap nvars ecl result.
           is_cnf eng cnf \<and> encode_cnf eng cnf = (litmap, nvars, ecl) \<and>
           encode_clauses litmap ecl = Inr result \<and> clauses = sort_key clause_key result"
proof -
  from assms have ic: "is_cnf eng cnf"
    by (simp add: cnf_to_clauses_def split: if_splits)
  obtain litmap nvars ecl where en: "encode_cnf eng cnf = (litmap, nvars, ecl)"
    by (cases "encode_cnf eng cnf")
  from assms ic en have "case encode_clauses litmap ecl of Inl e \<Rightarrow> False
      | Inr result \<Rightarrow> clauses = sort_key clause_key result"
    by (simp add: cnf_to_clauses_def split: sum.splits)
  then obtain result where "encode_clauses litmap ecl = Inr result"
    "clauses = sort_key clause_key result"
    by (cases "encode_clauses litmap ecl") simp_all
  with ic en show ?thesis by blast
qed

lemma backdoor_Inr:
  assumes "backdoor_to_clauses eng easy = (Inr clauses, tr)"
  shows "\<exists>m tr0. cubes_to_dnf eng easy = (Inr (cubes_dnf easy), tr0) \<and>
           easy \<noteq> [] \<and> (\<forall>cube \<in> set easy. map abs cube = map abs (hd easy)) \<and>
           espresso_exprs eng (cubes_dnf easy) = Some [m] \<and>
           cnf_to_clauses eng (to_cnf eng (Not_e m)) = Inr clauses"
proof -
  obtain r0 tr0 where c0: "cubes_to_dnf eng easy = (r0, tr0)" by (cases "cubes_to_dnf eng easy")
  have "\<exists>dnf. r0 = Inr dnf"
  proof (cases r0)
    case (Inl e)
    from backdoor_Inl [OF c0 [unfolded Inl]] assms show ?thesis by simp
  next
    case (Inr dnf)
    then show ?thesis by blast
  qed
  then obtain dnf where r0: "r0 = Inr dnf" by blast
  note c1 = c0 [unfolded r0]
  note f = cubes_to_dnf_Inr [OF c1]
  have d: "easy \<noteq> []" "\<forall>cube \<in> set easy. map abs cube = map abs (hd easy)"
    "dnf = cubes_dnf easy"
    using f by blast+
  have "\<exists>m. espresso_exprs eng dnf = Some [m]"
  proof (cases "espresso_exprs eng dnf")
    case None
    from backdoor_oracle_fails [OF c1 None] assms show ?thesis by simp
  next
    case (Some ms)
    show ?thesis
    proof (cases "length ms = 1")
      case True
      then obtain m where "ms = [m]" by (cases ms) auto
      with Some show ?thesis by simp
    next
      case False
      from backdoor_not_single [OF c1 Some False] assms show ?thesis by simp
    qed
  qed
  then obtain m where m: "espresso_exprs eng dnf = Some [m]" by blast
  from backdoor_single [OF c1 m] assms
  have cc: "cnf_to_clauses eng (to_cnf eng (Not_e m)) = Inr clauses" by simp
  show ?thesis
    using c1 d(1,2) m cc unfolding d(3) by (intro exI conjI)
qed

lemma clause_lit_errors:
  "clause_lit litmap lit = Inl e \<Longrightarrow> e = IndexError \<or> (\<exists>k. e = KeyError k)"
  by (auto simp: clause_lit_def split: option.splits list.splits)

lemma clause_lits_errors:
  "clause_lits litmap c = Inl e \<Longrightarrow> e = IndexError \<or> (\<exists>k. e = KeyError k)"
  by (induction c) (auto dest: clause_lit_errors split: sum.splits)

lemma encode_clauses_errors:
  "encode_clauses litmap cs = Inl e \<Longrightarrow> e = IndexError \<or> (\<exists>k. e = KeyError k)"
  by (induction cs) (auto dest: clause_lits_errors split: sum.splits)

lemma cnf_to_clauses_errors:
  assumes "cnf_to_clauses eng cnf = Inl e"
  shows "e = AssertionError_cnf \<or> e = IndexError \<or> (\<exists>k. e = KeyError k)"
proof -
  obtain litmap nvars ecl where en: "encode_cnf eng cnf = (litmap, nvars, ecl)"
    by (cases "encode_cnf eng cnf")
  show ?thesis
  proof (cases "is_cnf eng cnf")
    case True
    with assms en have "encode_clauses litmap ecl = Inl e"
      by (cases "encode_clauses litmap ecl") (simp_all add: cnf_to_clauses_def)
    from encode_clauses_errors [OF this] show ?thesis by simp
  next
    case False
    with assms show ?thesis by (simp add: cnf_to_clauses_def)
  qed
qed

lemma encode_clauses_sorted:
  "encode_clauses litmap ecl = Inr result \<Longrightarrow> \<forall>c \<in> set result. sorted (map abs c)"
proof (induction ecl arbitrary: result)
  case Nil
  then show ?case by simp
next
  case (Cons clause clauses)
  from Cons.prems obtain c where c: "clause_lits litmap clause = Inr c"
    by (cases "clause_lits litmap clause") simp_all
  from Cons.prems c obtain r where r: "encode_clauses litmap clauses = Inr r"
    by (cases "encode_clauses litmap clauses") simp_all
  from Cons.prems c r have "result = sort_key abs c # r" by simp
  moreover from Cons.IH [OF r] have "\<forall>c \<in> set r. sorted (map abs c)" .
  ultimately show ?case by (simp add: sorted_sort_key)
qed

lemma clause_key_le:
  "(clause_key c \<le> clause_key d) =
     (length c < length d \<or> length c = length d \<and> map abs c \<le> map abs d)"
  by (auto simp: clause_key_def less_eq_prod_def)

lemma backdoor_cube_error:
  assumes "backdoor_to_clauses eng easy = (Inl (AssertionError_cube c vs), tr)"
  shows "\<exists>tr0. cubes_to_dnf eng easy = (Inl (AssertionError_cube c vs), tr0)"
proof -
  obtain r0 tr0 where c0: "cubes_to_dnf eng easy = (r0, tr0)" by (cases "cubes_to_dnf eng easy")
  show ?thesis
  proof (cases r0)
    case (Inl e)
    from backdoor_Inl [OF c0 [unfolded Inl]] assms have "e = AssertionError_cube c vs" by simp
    with c0 Inl show ?thesis by simp
  next
    case (Inr dnf)
    note c1 = c0 [unfolded Inr]
    show ?thesis
    proof (cases "espresso_exprs eng dnf")
      case None
      from backdoor_oracle_fails [OF c1 None] assms show ?thesis by simp
    next
      case (Some ms)
      show ?thesis
      proof (cases "length ms = 1")
        case True
        then obtain m where m: "ms = [m]" by (cases ms) auto
        from backdoor_single [OF c1 Some [unfolded m]] assms
        have "cnf_to_clauses eng (to_cnf eng (Not_e m)) = Inl (AssertionError_cube c vs)" by simp
        from cnf_to_clauses_errors [OF this] show ?thesis by simp
      next
        case False
        from backdoor_not_single [OF c1 Some False] assms show ?thesis by simp
      qed
    qed
  qed
qed

lemma final_var_map_eq:
  "final_var_map cubes v = (if v \<in> magnitudes cubes then Some (exprvar ''x'' v) else None)"
proof -
  obtain es st where e: "cubes_exprs \<lparr>var_map = Map.empty, trace = []\<rparr> cubes = (es, st)"
    by (cases "cubes_exprs \<lparr>var_map = Map.empty, trace = []\<rparr> cubes")
  have "good_map (var_map \<lparr>var_map = Map.empty, trace = []\<rparr>)" by (simp add: good_map_empty)
  from cubes_exprs_good [OF this e]
  have g: "good_map (var_map st)" and d: "dom (var_map st) = magnitudes cubes" by simp_all
  have f: "final_var_map cubes = var_map st" by (simp add: final_var_map_def e)
  show ?thesis
  proof (cases "v \<in> magnitudes cubes")
    case True
    with d obtain h where h: "var_map st v = Some h" by blast
    with g have "h = exprvar ''x'' v" unfolding good_map_def by blast
    with h True f show ?thesis by simp
  next
    case False
    with d have "var_map st v = None" by blast
    with False f show ?thesis by simp
  qed
qed

subsection \<open>The reference engine meets the contracts\<close>

lemma eval_neg_lit: "eval a (neg_lit e) = (\<not> eval a e)"
  by (cases e) simp_all

lemma eval_neg_term: "eval a (neg_term t) = (\<not> eval a t)"
  by (cases t) (simp_all add: eval_neg_lit list_ex_iff list_all_iff)

lemma eval_ref_to_cnf: "eval a (ref_to_cnf e) = eval a e"
  by (induction e rule: ref_to_cnf.induct)
     (simp_all add: eval_neg_term list_ex_iff list_all_iff)

lemma vars_list_neg_lit: "vars_list (neg_lit e) = vars_list e"
  by (cases e) simp_all

lemma vars_list_neg_term: "vars_list (neg_term t) = vars_list t"
  by (cases t) (simp_all add: vars_list_neg_lit comp_def)

lemma vars_list_ref_to_cnf: "vars_list (ref_to_cnf e) = vars_list e"
  by (induction e rule: ref_to_cnf.induct) (simp_all add: vars_list_neg_term comp_def)

lemma index_of_nth: "x \<in> set vs \<Longrightarrow> index_of x vs < length vs \<and> vs ! index_of x vs = x"
  by (induction vs) auto

lemma ref_litmap_code:
  "x \<in> set vs \<Longrightarrow> ref_litmap vs (int (index_of x vs) + 1) = Some x"
  using index_of_nth [of x vs] by (simp add: ref_litmap_def)

lemma ref_lit_faithful:
  assumes "is_lit l" and "set (vars_list l) \<subseteq> set vs"
  shows "encoded_lit_holds a (ref_litmap vs) (lit_code vs l) = eval a l \<and>
         (\<exists>x \<in> set (vars_list l). ref_litmap vs (abs (lit_code vs l)) = Some x)"
proof (cases l rule: is_lit.cases)
  case (1 x)
  with assms(2) have "x \<in> set vs" by simp
  from ref_litmap_code [OF this]
  have "ref_litmap vs (int (index_of x vs) + 1) = Some x"
    "ref_litmap vs (1 + int (index_of x vs)) = Some x" by (simp_all add: add.commute)
  with 1 show ?thesis by (simp add: encoded_lit_holds_def)
next
  case (2 x)
  with assms(2) have "x \<in> set vs" by simp
  from ref_litmap_code [OF this]
  have "ref_litmap vs (int (index_of x vs) + 1) = Some x"
    "ref_litmap vs (1 + int (index_of x vs)) = Some x" by (simp_all add: add.commute)
  with 2 show ?thesis by (simp add: encoded_lit_holds_def)
qed (use assms(1) in simp_all)

lemma ref_clause_faithful:
  assumes "ref_is_clause c" and "set (vars_list c) \<subseteq> set vs"
  shows "list_ex (encoded_lit_holds a (ref_litmap vs)) (clause_codes vs c) = eval a c \<and>
         (\<forall>k \<in> set (clause_codes vs c). \<exists>x \<in> set (vars_list c). ref_litmap vs (abs k) = Some x)"
proof (cases c)
  case (Or ls)
  with assms have l: "\<forall>l \<in> set ls. is_lit l \<and> set (vars_list l) \<subseteq> set vs"
    by (auto simp: list_all_iff)
  have f: "\<forall>l \<in> set ls. encoded_lit_holds a (ref_litmap vs) (lit_code vs l) = eval a l \<and>
         (\<exists>x \<in> set (vars_list l). ref_litmap vs (abs (lit_code vs l)) = Some x)"
    using l ref_lit_faithful by blast
  have "list_ex (encoded_lit_holds a (ref_litmap vs)) (map (lit_code vs) ls) =
        list_ex (eval a) ls"
    using f by (simp add: list_ex_iff)
  moreover have "\<forall>k \<in> set (map (lit_code vs) ls).
      \<exists>x \<in> set (concat (map vars_list ls)). ref_litmap vs (abs k) = Some x"
  proof
    fix k assume "k \<in> set (map (lit_code vs) ls)"
    then obtain l where l: "l \<in> set ls" "k = lit_code vs l" by auto
    with f obtain x where "x \<in> set (vars_list l)" "ref_litmap vs (abs k) = Some x" by blast
    with l(1) show "\<exists>x \<in> set (concat (map vars_list ls)). ref_litmap vs (abs k) = Some x"
      by auto
  qed
  ultimately show ?thesis by (simp add: Or)
qed (use assms(1) in simp_all)

lemma ref_cnf_faithful:
  assumes "ref_is_cnf e" and "set (vars_list e) \<subseteq> set vs"
  shows "list_all (list_ex (encoded_lit_holds a (ref_litmap vs))) (cnf_codes vs e) = eval a e \<and>
         (\<forall>c \<in> set (cnf_codes vs e). \<forall>k \<in> set c.
            \<exists>x \<in> set (vars_list e). ref_litmap vs (abs k) = Some x)"
proof (cases e)
  case (And cs)
  with assms have l: "\<forall>c \<in> set cs. ref_is_clause c \<and> set (vars_list c) \<subseteq> set vs"
    by (auto simp: list_all_iff)
  have f: "\<forall>c \<in> set cs.
      list_ex (encoded_lit_holds a (ref_litmap vs)) (clause_codes vs c) = eval a c \<and>
      (\<forall>k \<in> set (clause_codes vs c). \<exists>x \<in> set (vars_list c). ref_litmap vs (abs k) = Some x)"
    using l ref_clause_faithful by blast
  have "list_all (list_ex (encoded_lit_holds a (ref_litmap vs))) (map (clause_codes vs) cs) =
        list_all (eval a) cs"
    using f by (simp add: list_all_iff)
  moreover have "\<forall>c \<in> set (map (clause_codes vs) cs). \<forall>k \<in> set c.
      \<exists>x \<in> set (concat (map vars_list cs)). ref_litmap vs (abs k) = Some x"
  proof (intro ballI)
    fix c k assume "c \<in> set (map (clause_codes vs) cs)" and k: "k \<in> set c"
    then obtain d where d: "d \<in> set cs" "c = clause_codes vs d" by auto
    with f k obtain x where "x \<in> set (vars_list d)" "ref_litmap vs (abs k) = Some x" by blast
    with d(1) show "\<exists>x \<in> set (concat (map vars_list cs)). ref_litmap vs (abs k) = Some x"
      by auto
  qed
  ultimately show ?thesis by (simp add: And)
qed (use assms(1) in simp_all)

lemma ref_engine_equiv: "engine_equiv ref_engine"
proof -
  have a: "\<forall>e m. espresso_exprs ref_engine e = Some [m] \<longrightarrow> equivalent m e"
    by (simp add: ref_engine_def equivalent_def)
  have b: "\<forall>e. equivalent (to_cnf ref_engine e) e"
    by (simp add: ref_engine_def equivalent_def eval_ref_to_cnf)
  have c: "\<forall>e litmap nvars clauses a.
          is_cnf ref_engine e \<longrightarrow> encode_cnf ref_engine e = (litmap, nvars, clauses) \<longrightarrow>
          eval a e = list_all (list_ex (encoded_lit_holds a litmap)) clauses"
    using ref_cnf_faithful [of _ "remdups (vars_list _)"]
    by (simp add: ref_engine_def ref_encode_cnf_def Let_def)
  from a b c show ?thesis unfolding engine_equiv_def by blast
qed

lemma ref_engine_support: "engine_support ref_engine"
proof -
  have a: "\<forall>e m. espresso_exprs ref_engine e = Some [m] \<longrightarrow> vars_of m \<subseteq> vars_of e"
    by (simp add: ref_engine_def)
  have b: "\<forall>e. vars_of (to_cnf ref_engine e) \<subseteq> vars_of e"
    by (simp add: ref_engine_def vars_of_def vars_list_ref_to_cnf)
  have c: "\<forall>e litmap nvars clauses.
          is_cnf ref_engine e \<longrightarrow> encode_cnf ref_engine e = (litmap, nvars, clauses) \<longrightarrow>
          (\<forall>c \<in> set clauses. \<forall>l \<in> set c. \<exists>x \<in> vars_of e. litmap (abs l) = Some x)"
    using ref_cnf_faithful [of _ "remdups (vars_list _)"]
    by (simp add: ref_engine_def ref_encode_cnf_def Let_def vars_of_def)
  from a b c show ?thesis unfolding engine_support_def by blast
qed

subsection \<open>From encoded clauses to output clauses\<close>

lemma clause_lits_rel:
  "clause_lits litmap c = Inr c' \<Longrightarrow> list_all2 (\<lambda>l l'. clause_lit litmap l = Inr l') c c'"
proof (induction c arbitrary: c')
  case Nil
  then show ?case by simp
next
  case (Cons l ls)
  from Cons.prems obtain l' where a: "clause_lit litmap l = Inr l'"
    by (cases "clause_lit litmap l") simp_all
  from Cons.prems a obtain r where b: "clause_lits litmap ls = Inr r"
    by (cases "clause_lits litmap ls") simp_all
  from Cons.prems a b have "c' = l' # r" by simp
  with a Cons.IH [OF b] show ?case by simp
qed

lemma encode_clauses_rel:
  "encode_clauses litmap ecl = Inr result \<Longrightarrow>
   list_all2 (\<lambda>c r. \<exists>c'. clause_lits litmap c = Inr c' \<and> r = sort_key abs c') ecl result"
proof (induction ecl arbitrary: result)
  case Nil
  then show ?case by simp
next
  case (Cons c cs)
  from Cons.prems obtain c' where a: "clause_lits litmap c = Inr c'"
    by (cases "clause_lits litmap c") simp_all
  from Cons.prems a obtain r where b: "encode_clauses litmap cs = Inr r"
    by (cases "encode_clauses litmap cs") simp_all
  from Cons.prems a b have "result = sort_key abs c' # r" by simp
  with a Cons.IH [OF b] show ?case by simp
qed

lemma list_ex_all2:
  "list_all2 (\<lambda>x y. Q y = P x) xs ys \<Longrightarrow> list_ex Q ys = list_ex P xs"
  by (induction xs ys rule: list_all2_induct) simp_all

lemma list_all_all2:
  "list_all2 (\<lambda>x y. Q y = P x) xs ys \<Longrightarrow> list_all Q ys = list_all P xs"
  by (induction xs ys rule: list_all2_induct) simp_all

lemma clause_lit_handle:
  assumes "clause_lit litmap l = Inr l'" and "litmap (abs l) = Some (exprvar ''x'' v)"
  shows "l' = (if l < 0 then - v else v)"
  using assms by (auto simp: clause_lit_def exprvar_def signed_simps)

lemma clause_lit_holds:
  assumes "clause_lit litmap l = Inr l'" and "litmap (abs l) = Some (exprvar ''x'' v)" and "0 < v"
  shows "lit_holds \<sigma> l' = encoded_lit_holds (var_assign \<sigma>) litmap l"
  using assms(2,3) clause_lit_handle [OF assms(1,2)]
  by (simp add: lit_holds_def encoded_lit_holds_def var_assign_def exprvar_def)

lemma clause_lits_holds:
  assumes "clause_lits litmap c = Inr c'"
    and "\<forall>l \<in> set c. \<exists>v. 0 < v \<and> litmap (abs l) = Some (exprvar ''x'' v)"
  shows "clause_holds \<sigma> c' = list_ex (encoded_lit_holds (var_assign \<sigma>) litmap) c"
proof -
  from clause_lits_rel [OF assms(1)]
  have "list_all2 (\<lambda>l l'. clause_lit litmap l = Inr l' \<and> l \<in> set c) c c'"
    by (simp add: list_all2_conv_all_nth)
  then have "list_all2 (\<lambda>l l'. lit_holds \<sigma> l' = encoded_lit_holds (var_assign \<sigma>) litmap l) c c'"
    by (rule list_all2_mono) (use assms(2) clause_lit_holds in blast)
  from list_ex_all2 [OF this] show ?thesis by (simp add: clause_holds_def)
qed

lemma clause_holds_sort: "clause_holds \<sigma> (sort_key f c) = clause_holds \<sigma> c"
  by (simp add: clause_holds_def list_ex_iff)

lemma clauses_hold_sort: "clauses_hold \<sigma> (sort_key f cs) = clauses_hold \<sigma> cs"
  by (simp add: clauses_hold_def list_all_iff)

lemma encode_clauses_holds:
  assumes "encode_clauses litmap ecl = Inr result"
    and "\<forall>c \<in> set ecl. \<forall>l \<in> set c. \<exists>v. 0 < v \<and> litmap (abs l) = Some (exprvar ''x'' v)"
  shows "clauses_hold \<sigma> result =
         list_all (list_ex (encoded_lit_holds (var_assign \<sigma>) litmap)) ecl"
proof -
  from encode_clauses_rel [OF assms(1)]
  have "list_all2 (\<lambda>c r. (\<exists>c'. clause_lits litmap c = Inr c' \<and> r = sort_key abs c') \<and> c \<in> set ecl)
          ecl result"
    by (simp add: list_all2_conv_all_nth)
  then have "list_all2 (\<lambda>c r. clause_holds \<sigma> r =
                list_ex (encoded_lit_holds (var_assign \<sigma>) litmap) c) ecl result"
  proof (rule list_all2_mono)
    fix c r
    assume "(\<exists>c'. clause_lits litmap c = Inr c' \<and> r = sort_key abs c') \<and> c \<in> set ecl"
    then obtain c' where c': "clause_lits litmap c = Inr c'" "r = sort_key abs c'" "c \<in> set ecl"
      by blast
    from assms(2) c'(3)
    have "\<forall>l \<in> set c. \<exists>v. 0 < v \<and> litmap (abs l) = Some (exprvar ''x'' v)" by blast
    from clause_lits_holds [OF c'(1) this]
    show "clause_holds \<sigma> r = list_ex (encoded_lit_holds (var_assign \<sigma>) litmap) c"
      by (simp add: c'(2) clause_holds_sort)
  qed
  from list_all_all2 [OF this] show ?thesis by (simp add: clauses_hold_def)
qed

lemma clause_lits_abs:
  assumes "clause_lits litmap c = Inr c'"
    and "\<forall>l \<in> set c. \<exists>v \<in> M. litmap (abs l) = Some (exprvar ''x'' v)"
  shows "\<forall>l' \<in> set c'. abs l' \<in> abs ` M"
proof -
  from clause_lits_rel [OF assms(1)]
  have r: "list_all2 (\<lambda>l l'. clause_lit litmap l = Inr l') c c'" .
  show ?thesis
  proof
    fix l' assume "l' \<in> set c'"
    then obtain i where i: "i < length c'" "l' = c' ! i" by (auto simp: in_set_conv_nth)
    with r have li: "i < length c" "clause_lit litmap (c ! i) = Inr l'"
      by (simp_all add: list_all2_conv_all_nth)
    from li(1) assms(2) obtain v where v: "v \<in> M" "litmap (abs (c ! i)) = Some (exprvar ''x'' v)"
      by (meson nth_mem)
    from clause_lit_handle [OF li(2) v(2)] have "abs l' = abs v" by (simp split: if_splits)
    with v(1) show "abs l' \<in> abs ` M" by blast
  qed
qed

lemma encode_clauses_abs:
  assumes "encode_clauses litmap ecl = Inr result"
    and "\<forall>c \<in> set ecl. \<forall>l \<in> set c. \<exists>v \<in> M. litmap (abs l) = Some (exprvar ''x'' v)"
  shows "\<forall>r \<in> set result. \<forall>l' \<in> set r. abs l' \<in> abs ` M"
proof -
  from encode_clauses_rel [OF assms(1)]
  have rl: "list_all2 (\<lambda>c r. \<exists>c'. clause_lits litmap c = Inr c' \<and> r = sort_key abs c') ecl result" .
  show ?thesis
  proof
    fix r assume "r \<in> set result"
    then obtain i where i: "i < length result" "r = result ! i" by (auto simp: in_set_conv_nth)
    with rl obtain c' where c': "i < length ecl" "clause_lits litmap (ecl ! i) = Inr c'"
      "r = sort_key abs c'"
      by (auto simp: list_all2_conv_all_nth)
    from c'(1) assms(2)
    have "\<forall>l \<in> set (ecl ! i). \<exists>v \<in> M. litmap (abs l) = Some (exprvar ''x'' v)"
      by (meson nth_mem)
    from clause_lits_abs [OF c'(2) this] show "\<forall>l' \<in> set r. abs l' \<in> abs ` M"
      by (simp add: c'(3))
  qed
qed

lemma magnitudes_abs: "abs ` magnitudes cubes = magnitudes cubes"
  by (simp add: magnitudes_def image_image)

lemma magnitudes_pos:
  "\<forall>cube \<in> set cubes. \<forall>l \<in> set cube. l \<noteq> 0 \<Longrightarrow> v \<in> magnitudes cubes \<Longrightarrow> 0 < v"
  by (auto simp: magnitudes_def)

text \<open>The handles that reach the clause encoder are handles of the batch, when the engine
  brings in none of its own.\<close>

lemma encoded_handles:
  assumes sup: "engine_support eng"
    and m: "espresso_exprs eng (cubes_dnf easy) = Some [m]"
    and ic: "is_cnf eng (to_cnf eng (Not_e m))"
    and en: "encode_cnf eng (to_cnf eng (Not_e m)) = (litmap, nvars, ecl)"
  shows "\<forall>c \<in> set ecl. \<forall>l \<in> set c. \<exists>v \<in> magnitudes easy. litmap (abs l) = Some (exprvar ''x'' v)"
proof (intro ballI)
  fix c l assume cl: "c \<in> set ecl" "l \<in> set c"
  from sup m have a: "vars_of m \<subseteq> vars_of (cubes_dnf easy)"
    unfolding engine_support_def by blast
  from sup have b: "vars_of (to_cnf eng (Not_e m)) \<subseteq> vars_of (Not_e m)"
    unfolding engine_support_def by blast
  from sup ic en cl obtain x where x: "x \<in> vars_of (to_cnf eng (Not_e m))" "litmap (abs l) = Some x"
    unfolding engine_support_def by blast
  have "vars_of (Not_e m) = vars_of m" by (simp add: vars_of_def)
  with a b x(1) have "x \<in> vars_of (cubes_dnf easy)" by blast
  then obtain v where "v \<in> magnitudes easy" "x = exprvar ''x'' v"
    by (auto simp: vars_of_cubes_dnf)
  with x(2) show "\<exists>v \<in> magnitudes easy. litmap (abs l) = Some (exprvar ''x'' v)" by blast
qed

text \<open>The hypothesis on zero cannot be dropped: \<^verbatim>\<open>signed(0, s)\<close> is 0 whatever the sign, so a
  negated variable 0 comes out as the literal 0, which reads as the variable itself.\<close>

lemma zero_literal_loses_polarity:
  "fst (backdoor_to_clauses ref_engine [[0]]) = Inr [[0]] \<and>
   clauses_hold \<sigma> [[0]] = cubes_hold \<sigma> [[0]]"
proof -
  have "fst (backdoor_to_clauses ref_engine [[0]]) = Inr [[0]]" by code_simp
  then show ?thesis
    by (simp add: clauses_hold_def clause_holds_def cubes_hold_def cube_holds_def)
qed

lemma clause_lits_ids:
  assumes "clause_lits litmap c = Inr c'"
    and "\<forall>lit \<in> set c. \<exists>v \<in> magnitudes easy. litmap (abs lit) = Some (exprvar ''x'' v)"
  shows "list_all2 (\<lambda>lit l. \<exists>v \<in> magnitudes easy.
            litmap (abs lit) = final_var_map easy v \<and> l = (if lit < 0 then - v else v)) c c'"
proof -
  from clause_lits_rel [OF assms(1)]
  have "list_all2 (\<lambda>lit l. clause_lit litmap lit = Inr l \<and> lit \<in> set c) c c'"
    by (simp add: list_all2_conv_all_nth)
  then show ?thesis
  proof (rule list_all2_mono)
    fix lit l assume a: "clause_lit litmap lit = Inr l \<and> lit \<in> set c"
    with assms(2) obtain v where v: "v \<in> magnitudes easy"
      "litmap (abs lit) = Some (exprvar ''x'' v)" by blast
    from a have "clause_lit litmap lit = Inr l" by (rule conjunct1)
    from clause_lit_handle [OF this v(2)] have "l = (if lit < 0 then - v else v)" .
    moreover from v have "litmap (abs lit) = final_var_map easy v"
      by (simp add: final_var_map_eq)
    ultimately show "\<exists>v \<in> magnitudes easy.
        litmap (abs lit) = final_var_map easy v \<and> l = (if lit < 0 then - v else v)"
      using v(1) by blast
  qed
qed

lemma encode_clauses_ids:
  assumes "encode_clauses litmap ecl = Inr result"
    and "\<forall>c \<in> set ecl. \<forall>lit \<in> set c.
           \<exists>v \<in> magnitudes easy. litmap (abs lit) = Some (exprvar ''x'' v)"
  shows "list_all2 (\<lambda>ec r. \<exists>c. list_all2 (\<lambda>lit l. \<exists>v \<in> magnitudes easy.
              litmap (abs lit) = final_var_map easy v \<and> l = (if lit < 0 then - v else v)) ec c \<and>
            r = sort_key abs c) ecl result"
proof -
  from encode_clauses_rel [OF assms(1)]
  have "list_all2 (\<lambda>ec r. (\<exists>c. clause_lits litmap ec = Inr c \<and> r = sort_key abs c) \<and> ec \<in> set ecl)
          ecl result"
    by (simp add: list_all2_conv_all_nth)
  then show ?thesis
  proof (rule list_all2_mono)
    fix ec r
    assume "(\<exists>c. clause_lits litmap ec = Inr c \<and> r = sort_key abs c) \<and> ec \<in> set ecl"
    then obtain c where c: "clause_lits litmap ec = Inr c" "r = sort_key abs c" "ec \<in> set ecl"
      by blast
    from assms(2) c(3)
    have "\<forall>lit \<in> set ec. \<exists>v \<in> magnitudes easy. litmap (abs lit) = Some (exprvar ''x'' v)"
      by blast
    from clause_lits_ids [OF c(1) this] c(2)
    show "\<exists>c. list_all2 (\<lambda>lit l. \<exists>v \<in> magnitudes easy.
              litmap (abs lit) = final_var_map easy v \<and> l = (if lit < 0 then - v else v)) ec c \<and>
            r = sort_key abs c"
      by blast
  qed
qed









section \<open>The claims\<close>

text \<open>
  C1. Take a batch whose literals are all nonzero and an engine that keeps the meaning and
  brings in no handle of its own. If the pipeline returns a clause list, then under every
  assignment of the variable ids the clause list holds exactly when no cube of the batch
  holds: the conjunction of the clauses is equivalent to the negation of the disjunction
  of the cubes. A run that returns has a batch that is not empty and whose cubes list the
  same magnitudes.
\<close>

theorem clauses_equiv_negated_cubes:
  assumes "backdoor_to_clauses eng easy = (Inr clauses, tr)"
    and "\<forall>cube \<in> set easy. \<forall>l \<in> set cube. l \<noteq> 0"
    and "engine_equiv eng" and "engine_support eng"
  shows "\<forall>\<sigma>. clauses_hold \<sigma> clauses = (\<not> cubes_hold \<sigma> easy)"
proof
  fix \<sigma>
  from backdoor_Inr [OF assms(1)] obtain m where
    m: "espresso_exprs eng (cubes_dnf easy) = Some [m]" and
    cc: "cnf_to_clauses eng (to_cnf eng (Not_e m)) = Inr clauses" by blast
  from cnf_to_clauses_Inr [OF cc] obtain litmap nvars ecl result where
    ic: "is_cnf eng (to_cnf eng (Not_e m))" and
    en: "encode_cnf eng (to_cnf eng (Not_e m)) = (litmap, nvars, ecl)" and
    enc: "encode_clauses litmap ecl = Inr result" and
    cl: "clauses = sort_key clause_key result" by blast
  have h: "\<forall>c \<in> set ecl. \<forall>l \<in> set c. \<exists>v. 0 < v \<and> litmap (abs l) = Some (exprvar ''x'' v)"
    using encoded_handles [OF assms(4) m ic en] magnitudes_pos [OF assms(2)] by blast
  have "clauses_hold \<sigma> clauses = clauses_hold \<sigma> result"
    by (simp add: cl clauses_hold_sort)
  also have "\<dots> = list_all (list_ex (encoded_lit_holds (var_assign \<sigma>) litmap)) ecl"
    by (rule encode_clauses_holds [OF enc h])
  also have "\<dots> = eval (var_assign \<sigma>) (to_cnf eng (Not_e m))"
    using assms(3) ic en unfolding engine_equiv_def by blast
  also have "\<dots> = eval (var_assign \<sigma>) (Not_e m)"
    using assms(3) unfolding engine_equiv_def equivalent_def by blast
  also have "\<dots> = (\<not> eval (var_assign \<sigma>) (cubes_dnf easy))"
    using assms(3) m unfolding engine_equiv_def equivalent_def by simp
  also have "\<dots> = (\<not> cubes_hold \<sigma> easy)"
    by (simp add: eval_cubes_dnf)
  finally show "clauses_hold \<sigma> clauses = (\<not> cubes_hold \<sigma> easy)" .
qed

theorem clauses_equiv_negated_cubes_witness:
  "backdoor_to_clauses ref_engine [[1, 2, - 3], [1, - 2, 3]] =
     (Inr [[- 1, - 2, 3], [- 1, 2, - 3]],
      [Exprvar_call ''x'' 1, Exprvar_call ''x'' 2, Exprvar_call ''x'' 3,
       Espresso_call (cubes_dnf [[1, 2, - 3], [1, - 2, 3]])]) \<and>
   engine_equiv ref_engine \<and> engine_support ref_engine \<and>
   (\<forall>\<sigma>. clauses_hold \<sigma> [[- 1, - 2, 3], [- 1, 2, - 3]] =
        (\<not> cubes_hold \<sigma> [[1, 2, - 3], [1, - 2, 3]]))"
proof -
  have run: "backdoor_to_clauses ref_engine [[1, 2, - 3], [1, - 2, 3]] =
     (Inr [[- 1, - 2, 3], [- 1, 2, - 3]],
      [Exprvar_call ''x'' 1, Exprvar_call ''x'' 2, Exprvar_call ''x'' 3,
       Espresso_call (cubes_dnf [[1, 2, - 3], [1, - 2, 3]])])"
    by code_simp
  have nz: "\<forall>cube \<in> set [[1, 2, - 3], [1, - 2, 3 :: int]]. \<forall>l \<in> set cube. l \<noteq> 0" by simp
  from clauses_equiv_negated_cubes [OF run nz ref_engine_equiv ref_engine_support]
       run ref_engine_equiv ref_engine_support
  show ?thesis by blast
qed

text \<open>
  C2. In a clause list that the pipeline returns, every clause lists its literals by
  ascending absolute value, and the clauses are sorted by the key of the final sort, the
  pair of the clause's length and the list of its absolute values: of two clauses the
  earlier one is shorter, or as long and its list of absolute values is not
  lexicographically greater.
\<close>

theorem output_sorted:
  assumes "backdoor_to_clauses eng easy = (Inr clauses, tr)"
  shows "(\<forall>c \<in> set clauses. sorted (map abs c)) \<and>
         sorted (map clause_key clauses) \<and>
         (\<forall>i j. i < j \<longrightarrow> j < length clauses \<longrightarrow>
            length (clauses ! i) < length (clauses ! j) \<or>
            length (clauses ! i) = length (clauses ! j) \<and>
            map abs (clauses ! i) \<le> map abs (clauses ! j))"
proof -
  from backdoor_Inr [OF assms] obtain m where
    "cnf_to_clauses eng (to_cnf eng (Not_e m)) = Inr clauses" by blast
  from cnf_to_clauses_Inr [OF this] obtain litmap ecl result where
    enc: "encode_clauses litmap ecl = Inr result" and
    cl: "clauses = sort_key clause_key result" by blast
  from encode_clauses_sorted [OF enc] have a: "\<forall>c \<in> set clauses. sorted (map abs c)"
    by (simp add: cl)
  have b: "sorted (map clause_key clauses)"
    by (simp add: cl sorted_sort_key)
  have c: "length (clauses ! i) < length (clauses ! j) \<or>
           length (clauses ! i) = length (clauses ! j) \<and>
           map abs (clauses ! i) \<le> map abs (clauses ! j)"
    if "i < j" "j < length clauses" for i j
  proof -
    from that have "map clause_key clauses ! i \<le> map clause_key clauses ! j"
      using b by (simp add: sorted_iff_nth_mono del: nth_map)
    with that have "clause_key (clauses ! i) \<le> clause_key (clauses ! j)" by simp
    then show ?thesis by (simp only: clause_key_le)
  qed
  from a b c show ?thesis by blast
qed

theorem output_sorted_witness:
  "backdoor_to_clauses
     (ref_engine\<lparr>espresso_exprs := \<lambda>e. Some [Or [And [Var (exprvar ''x'' 2), Var (exprvar ''x'' 1)],
                                                    And [Not_e (Var (exprvar ''x'' 3))]]]\<rparr>)
     [[1, 2, 3], [1, 2, - 3], [1, - 2, - 3], [- 1, 2, - 3], [- 1, - 2, - 3]] =
     (Inr [[3], [- 1, - 2]],
      [Exprvar_call ''x'' 1, Exprvar_call ''x'' 2, Exprvar_call ''x'' 3,
       Espresso_call
         (cubes_dnf [[1, 2, 3], [1, 2, - 3], [1, - 2, - 3], [- 1, 2, - 3], [- 1, - 2, - 3]])]) \<and>
   sorted (map abs [3 :: int]) \<and> sorted (map abs [- 1, - 2 :: int]) \<and>
   sorted (map clause_key [[3], [- 1, - 2 :: int]])"
proof -
  have run: "backdoor_to_clauses
     (ref_engine\<lparr>espresso_exprs := \<lambda>e. Some [Or [And [Var (exprvar ''x'' 2), Var (exprvar ''x'' 1)],
                                                    And [Not_e (Var (exprvar ''x'' 3))]]]\<rparr>)
     [[1, 2, 3], [1, 2, - 3], [1, - 2, - 3], [- 1, 2, - 3], [- 1, - 2, - 3]] =
     (Inr [[3], [- 1, - 2]],
      [Exprvar_call ''x'' 1, Exprvar_call ''x'' 2, Exprvar_call ''x'' 3,
       Espresso_call
         (cubes_dnf [[1, 2, 3], [1, 2, - 3], [1, - 2, - 3], [- 1, 2, - 3], [- 1, - 2, - 3]])])"
    by code_simp
  from output_sorted [OF run] run show ?thesis by simp
qed

text \<open>
  C3. The assertion of \<^verbatim>\<open>cubes_to_dnf\<close> compares lists, not sets: the batch \<open>[[1, 2], [2, 1]]\<close>
  has two cubes over the same set of magnitudes and is rejected with the second cube as
  the offending one.
\<close>

theorem same_set_other_order_counterexample:
  "abs ` set [1, 2 :: int] = abs ` set (hd [[1, 2], [2, 1 :: int]]) \<and>
   abs ` set [2, 1 :: int] = abs ` set (hd [[1, 2], [2, 1 :: int]]) \<and>
   backdoor_to_clauses ref_engine [[1, 2], [2, 1]] = (Inl (AssertionError_cube [2, 1] [1, 2]), [])"
proof -
  have "backdoor_to_clauses ref_engine [[1, 2], [2, 1]] = (Inl (AssertionError_cube [2, 1] [1, 2]), [])"
    by code_simp
  then show ?thesis by auto
qed

text \<open>
  C3, as amended. On a batch that is not empty, the pipeline raises the assertion error
  that names a cube if and only if some cube's list of magnitudes, read in order, differs
  from the first cube's list.
\<close>

theorem contract_violation_iff_positional:
  assumes "easy \<noteq> []"
  shows "(\<exists>c vs. fst (backdoor_to_clauses eng easy) = Inl (AssertionError_cube c vs)) =
         (\<exists>cube \<in> set easy. map abs cube \<noteq> map abs (hd easy))"
proof
  assume "\<exists>c vs. fst (backdoor_to_clauses eng easy) = Inl (AssertionError_cube c vs)"
  then obtain c vs tr where "backdoor_to_clauses eng easy = (Inl (AssertionError_cube c vs), tr)"
    by (cases "backdoor_to_clauses eng easy") auto
  from backdoor_cube_error [OF this] obtain tr0 where
    e: "cubes_to_dnf eng easy = (Inl (AssertionError_cube c vs), tr0)" by blast
  show "\<exists>cube \<in> set easy. map abs cube \<noteq> map abs (hd easy)"
  proof (rule ccontr)
    assume "\<not> ?thesis"
    then have "\<forall>cube \<in> set easy. map abs cube = map abs (hd easy)" by blast
    from cubes_to_dnf_match [OF assms this, of eng] e show False
      by (auto split: if_splits)
  qed
next
  assume "\<exists>cube \<in> set easy. map abs cube \<noteq> map abs (hd easy)"
  then obtain cube where "cube \<in> set easy" "map abs cube \<noteq> map abs (hd easy)" by blast
  from cubes_to_dnf_mismatch [OF this, of eng] obtain c where
    "cubes_to_dnf eng easy = (Inl (AssertionError_cube c (map abs (hd easy))), [])" by blast
  from backdoor_Inl [OF this]
  show "\<exists>c vs. fst (backdoor_to_clauses eng easy) = Inl (AssertionError_cube c vs)" by simp
qed

theorem contract_violation_iff_positional_witness:
  "[[1, - 2], [- 1, 2 :: int]] \<noteq> [] \<and>
   \<not> (\<exists>c vs. fst (backdoor_to_clauses ref_engine [[1, - 2], [- 1, 2]]) = Inl (AssertionError_cube c vs)) \<and>
   (\<exists>c vs. fst (backdoor_to_clauses ref_engine [[1, 2], [2, 1]]) = Inl (AssertionError_cube c vs))"
proof -
  have h1: "[[1, - 2], [- 1, 2 :: int]] \<noteq> []" by simp
  have h2: "[[1, 2], [2, 1 :: int]] \<noteq> []" by simp
  from contract_violation_iff_positional [OF h1, of ref_engine]
       contract_violation_iff_positional [OF h2, of ref_engine]
  show ?thesis by simp
qed

text \<open>
  C4. Once \<^verbatim>\<open>cubes_to_dnf\<close> has returned and the minimizer has returned a collection, the
  unpacking \<^verbatim>\<open>(min_dnf,) = ...\<close> fails with the cardinality error when the collection does not
  have exactly one element, and the pipeline goes on to the negation, the CNF conversion and
  \<^verbatim>\<open>cnf_to_clauses\<close> when it has exactly one. The cardinality error arises in no other way.
\<close>

theorem cardinality_error_iff:
  assumes "cubes_to_dnf eng easy = (Inr dnf, tr)" and "espresso_exprs eng dnf = Some ms"
  shows "(length ms \<noteq> 1 \<longrightarrow>
            backdoor_to_clauses eng easy = (Inl (ValueError (length ms)), tr @ [Espresso_call dnf])) \<and>
         (length ms = 1 \<longrightarrow>
            backdoor_to_clauses eng easy =
              (cnf_to_clauses eng (to_cnf eng (Not_e (hd ms))), tr @ [Espresso_call dnf])) \<and>
         ((\<exists>n. fst (backdoor_to_clauses eng easy) = Inl (ValueError n)) = (length ms \<noteq> 1))"
proof -
  have a: "length ms \<noteq> 1 \<Longrightarrow>
      backdoor_to_clauses eng easy = (Inl (ValueError (length ms)), tr @ [Espresso_call dnf])"
    by (rule backdoor_not_single [OF assms])
  have b: "backdoor_to_clauses eng easy =
      (cnf_to_clauses eng (to_cnf eng (Not_e (hd ms))), tr @ [Espresso_call dnf])"
    if "length ms = 1"
  proof -
    from that obtain m where m: "ms = [m]" by (cases ms) auto
    from backdoor_single [OF assms(1) assms(2) [unfolded m]] show ?thesis by (simp add: m)
  qed
  have c: "(\<exists>n. fst (backdoor_to_clauses eng easy) = Inl (ValueError n)) = (length ms \<noteq> 1)"
  proof (cases "length ms = 1")
    case True
    have "cnf_to_clauses eng (to_cnf eng (Not_e (hd ms))) \<noteq> Inl (ValueError n)" for n
      using cnf_to_clauses_errors [of eng "to_cnf eng (Not_e (hd ms))" "ValueError n"] by auto
    with b [OF True] True show ?thesis by simp
  next
    case False
    with a show ?thesis by simp
  qed
  from a b c show ?thesis by blast
qed

theorem cardinality_error_iff_witness:
  "backdoor_to_clauses (ref_engine\<lparr>espresso_exprs := \<lambda>e. Some [e, e]\<rparr>) [[1, - 2]] =
     (Inl (ValueError 2),
      [Exprvar_call ''x'' 1, Exprvar_call ''x'' 2, Espresso_call (cubes_dnf [[1, - 2]])]) \<and>
   backdoor_to_clauses ref_engine [[1, - 2]] =
     (Inr [[- 1, 2]],
      [Exprvar_call ''x'' 1, Exprvar_call ''x'' 2, Espresso_call (cubes_dnf [[1, - 2]])])"
proof -
  have d2: "cubes_to_dnf (ref_engine\<lparr>espresso_exprs := \<lambda>e. Some [e, e]\<rparr>) [[1, - 2]] =
      (Inr (cubes_dnf [[1, - 2]]), [Exprvar_call ''x'' 1, Exprvar_call ''x'' 2])"
    by code_simp
  have o2: "espresso_exprs (ref_engine\<lparr>espresso_exprs := \<lambda>e. Some [e, e]\<rparr>) (cubes_dnf [[1, - 2]]) =
      Some [cubes_dnf [[1, - 2]], cubes_dnf [[1, - 2]]]"
    by simp
  have d1: "cubes_to_dnf ref_engine [[1, - 2]] =
      (Inr (cubes_dnf [[1, - 2]]), [Exprvar_call ''x'' 1, Exprvar_call ''x'' 2])"
    by code_simp
  have o1: "espresso_exprs ref_engine (cubes_dnf [[1, - 2]]) = Some [cubes_dnf [[1, - 2]]]"
    by (simp add: ref_engine_def)
  have c1: "cnf_to_clauses ref_engine (to_cnf ref_engine (Not_e (cubes_dnf [[1, - 2]]))) =
      Inr [[- 1, 2]]"
    by code_simp
  from cardinality_error_iff [OF d2 o2] cardinality_error_iff [OF d1 o1] c1
  show ?thesis by simp
qed

text \<open>
  C5. When some cube of the batch does not list the magnitudes of the first cube, the
  pipeline ends with the assertion error of \<^verbatim>\<open>cubes_to_dnf\<close> and with an empty trace: the
  minimizer is never called on such a batch. Two cubes over different sets of magnitudes
  have different lists of magnitudes, so the batches of the claim are among these.
\<close>

theorem mismatch_raises_before_minimizer:
  assumes "cube \<in> set easy" and "map abs cube \<noteq> map abs (hd easy)"
  shows "(\<exists>c. backdoor_to_clauses eng easy =
               (Inl (AssertionError_cube c (map abs (hd easy))), [])) \<and>
         (\<forall>dnf. Espresso_call dnf \<notin> set (snd (backdoor_to_clauses eng easy)))"
proof -
  from cubes_to_dnf_mismatch [OF assms, of eng] obtain c where
    "cubes_to_dnf eng easy = (Inl (AssertionError_cube c (map abs (hd easy))), [])" by blast
  from backdoor_Inl [OF this]
  have r: "backdoor_to_clauses eng easy = (Inl (AssertionError_cube c (map abs (hd easy))), [])" .
  then have "\<forall>dnf. Espresso_call dnf \<notin> set (snd (backdoor_to_clauses eng easy))" by simp
  with r show ?thesis by blast
qed

theorem mismatch_raises_before_minimizer_witness:
  "[1, 2, 4] \<in> set [[1, 2, 3], [1, 2, 4 :: int]] \<and>
   map abs [1, 2, 4 :: int] \<noteq> map abs (hd [[1, 2, 3], [1, 2, 4]]) \<and>
   (\<exists>c. backdoor_to_clauses ref_engine [[1, 2, 3], [1, 2, 4]] =
          (Inl (AssertionError_cube c [1, 2, 3]), []))"
proof -
  have h1: "[1, 2, 4] \<in> set [[1, 2, 3], [1, 2, 4 :: int]]" by simp
  have h2: "map abs [1, 2, 4 :: int] \<noteq> map abs (hd [[1, 2, 3], [1, 2, 4]])" by simp
  from mismatch_raises_before_minimizer [OF h1 h2, of ref_engine]
  have "\<exists>c. backdoor_to_clauses ref_engine [[1, 2, 3], [1, 2, 4]] =
          (Inl (AssertionError_cube c [1, 2, 3]), [])" by simp
  with h1 h2 show ?thesis by blast
qed




text \<open>
  C7. When the engine brings in no handle of its own, every literal of every clause that
  the pipeline returns has as its absolute value the absolute value of some literal of
  the batch.
\<close>

theorem output_vars_from_input:
  assumes "backdoor_to_clauses eng easy = (Inr clauses, tr)" and "engine_support eng"
  shows "\<forall>c \<in> set clauses. \<forall>l \<in> set c. abs l \<in> magnitudes easy"
proof -
  from backdoor_Inr [OF assms(1)] obtain m where
    m: "espresso_exprs eng (cubes_dnf easy) = Some [m]" and
    cc: "cnf_to_clauses eng (to_cnf eng (Not_e m)) = Inr clauses" by blast
  from cnf_to_clauses_Inr [OF cc] obtain litmap nvars ecl result where
    ic: "is_cnf eng (to_cnf eng (Not_e m))" and
    en: "encode_cnf eng (to_cnf eng (Not_e m)) = (litmap, nvars, ecl)" and
    enc: "encode_clauses litmap ecl = Inr result" and
    cl: "clauses = sort_key clause_key result" by blast
  from encode_clauses_abs [OF enc encoded_handles [OF assms(2) m ic en]]
  show ?thesis by (simp add: cl magnitudes_abs)
qed

theorem output_vars_from_input_witness:
  "backdoor_to_clauses ref_engine [[5, - 7], [5, 7]] =
     (Inr [[- 5, 7], [- 5, - 7]],
      [Exprvar_call ''x'' 5, Exprvar_call ''x'' 7, Espresso_call (cubes_dnf [[5, - 7], [5, 7]])]) \<and>
   engine_support ref_engine \<and>
   abs (- 5 :: int) \<in> magnitudes [[5, - 7], [5, 7]] \<and> abs (7 :: int) \<in> magnitudes [[5, - 7], [5, 7]]"
proof -
  have run: "backdoor_to_clauses ref_engine [[5, - 7], [5, 7]] =
     (Inr [[- 5, 7], [- 5, - 7]],
      [Exprvar_call ''x'' 5, Exprvar_call ''x'' 7, Espresso_call (cubes_dnf [[5, - 7], [5, 7]])])"
    by code_simp
  from output_vars_from_input [OF run ref_engine_support]
  have "abs (- 5 :: int) \<in> magnitudes [[5, - 7], [5, 7]] \<and> abs (7 :: int) \<in> magnitudes [[5, - 7], [5, 7]]"
    by simp
  with run ref_engine_support show ?thesis by blast
qed

text \<open>
  C8. On the empty batch the pipeline fails on \<^verbatim>\<open>cubes[0]\<close> inside \<^verbatim>\<open>cubes_to_dnf\<close>: the
  result is the index error, not a clause list and not the assertion that names a cube,
  and the trace is empty, so no variable was allocated and the minimizer was not called.
\<close>

theorem empty_batch_index_error:
  "backdoor_to_clauses eng [] = (Inl IndexError, [])"
  by (simp add: backdoor_to_clauses_def cubes_to_dnf_def)

text \<open>
  C9. Every magnitude \<open>v\<close> of the batch has in \<^verbatim>\<open>var_map\<close> the handle \<^verbatim>\<open>exprvar("x", v)\<close>, whose
  only index is \<open>v\<close>. In a run that returns, with an engine that brings in no handle of its
  own, the clause list returned is the encoded clause list of \<^verbatim>\<open>encode_cnf\<close> read literal by
  literal: the encoded literal \<open>lit\<close>, whose handle \<open>litmap (abs lit)\<close> is the handle that
  \<^verbatim>\<open>var_map\<close> keeps for some magnitude \<open>v\<close> of the batch, is written as \<open>v\<close> itself, negated
  when \<open>lit\<close> is negative; then each clause is sorted, and the clauses are sorted.
\<close>

theorem varid_roundtrip:
  assumes "backdoor_to_clauses eng easy = (Inr clauses, tr)" and "engine_support eng"
  shows "(\<forall>v \<in> magnitudes easy.
            final_var_map easy v = Some (exprvar ''x'' v) \<and> indices (exprvar ''x'' v) = [v]) \<and>
         (\<exists>m litmap nvars ecl result.
            espresso_exprs eng (cubes_dnf easy) = Some [m] \<and>
            encode_cnf eng (to_cnf eng (Not_e m)) = (litmap, nvars, ecl) \<and>
            list_all2 (\<lambda>ec r. \<exists>c. list_all2 (\<lambda>lit l. \<exists>v \<in> magnitudes easy.
                  litmap (abs lit) = final_var_map easy v \<and> l = (if lit < 0 then - v else v)) ec c \<and>
                r = sort_key abs c) ecl result \<and>
            clauses = sort_key clause_key result)"
proof -
  have a: "\<forall>v \<in> magnitudes easy.
      final_var_map easy v = Some (exprvar ''x'' v) \<and> indices (exprvar ''x'' v) = [v]"
    by (simp add: final_var_map_eq exprvar_def)
  from backdoor_Inr [OF assms(1)] obtain m where
    m: "espresso_exprs eng (cubes_dnf easy) = Some [m]" and
    cc: "cnf_to_clauses eng (to_cnf eng (Not_e m)) = Inr clauses" by blast
  from cnf_to_clauses_Inr [OF cc] obtain litmap nvars ecl result where
    ic: "is_cnf eng (to_cnf eng (Not_e m))" and
    en: "encode_cnf eng (to_cnf eng (Not_e m)) = (litmap, nvars, ecl)" and
    enc: "encode_clauses litmap ecl = Inr result" and
    cl: "clauses = sort_key clause_key result" by blast
  note ids = encode_clauses_ids [OF enc encoded_handles [OF assms(2) m ic en]]
  have "\<exists>m litmap nvars ecl result.
            espresso_exprs eng (cubes_dnf easy) = Some [m] \<and>
            encode_cnf eng (to_cnf eng (Not_e m)) = (litmap, nvars, ecl) \<and>
            list_all2 (\<lambda>ec r. \<exists>c. list_all2 (\<lambda>lit l. \<exists>v \<in> magnitudes easy.
                  litmap (abs lit) = final_var_map easy v \<and> l = (if lit < 0 then - v else v)) ec c \<and>
                r = sort_key abs c) ecl result \<and>
            clauses = sort_key clause_key result"
    using m en ids cl by (intro exI conjI)
  with a show ?thesis by (rule conjI)
qed

theorem varid_roundtrip_witness:
  "backdoor_to_clauses ref_engine [[5, - 7], [5, 7]] =
     (Inr [[- 5, 7], [- 5, - 7]],
      [Exprvar_call ''x'' 5, Exprvar_call ''x'' 7, Espresso_call (cubes_dnf [[5, - 7], [5, 7]])]) \<and>
   engine_support ref_engine \<and>
   snd (snd (encode_cnf ref_engine (to_cnf ref_engine (Not_e (cubes_dnf [[5, - 7], [5, 7]]))))) =
     [[- 1, 2], [- 1, - 2]] \<and>
   final_var_map [[5, - 7], [5, 7]] 5 = Some (exprvar ''x'' 5) \<and>
   final_var_map [[5, - 7], [5, 7]] 7 = Some (exprvar ''x'' 7)"
proof -
  have run: "backdoor_to_clauses ref_engine [[5, - 7], [5, 7]] =
     (Inr [[- 5, 7], [- 5, - 7]],
      [Exprvar_call ''x'' 5, Exprvar_call ''x'' 7, Espresso_call (cubes_dnf [[5, - 7], [5, 7]])])"
    by code_simp
  have enc: "snd (snd (encode_cnf ref_engine (to_cnf ref_engine (Not_e (cubes_dnf [[5, - 7], [5, 7]]))))) =
     [[- 1, 2], [- 1, - 2]]"
    by code_simp
  have mag: "5 \<in> magnitudes [[5, - 7], [5, 7]]" "7 \<in> magnitudes [[5, - 7], [5, 7]]"
    by (simp_all add: magnitudes_def)
  from varid_roundtrip [OF run ref_engine_support]
  have "\<forall>v \<in> magnitudes [[5, - 7], [5, 7]].
      final_var_map [[5, - 7], [5, 7]] v = Some (exprvar ''x'' v) \<and> indices (exprvar ''x'' v) = [v]"
    by (rule conjunct1)
  with mag have "final_var_map [[5, - 7], [5, 7]] 5 = Some (exprvar ''x'' 5)"
    "final_var_map [[5, - 7], [5, 7]] 7 = Some (exprvar ''x'' 7)" by blast+
  with run enc ref_engine_support show ?thesis by blast
qed

text \<open>
  C10. On a batch that is not empty and whose cubes all list the magnitudes of the first
  cube in order, the first assertion of \<^verbatim>\<open>cubes_to_dnf\<close> passes whatever the literals are,
  zero included: the two loops run and build the disjunction of the cubes, and only the
  engine's shape test decides whether it is returned. The literal 0 is not negative, so it
  is encoded as the plain variable \<^verbatim>\<open>exprvar("x", 0)\<close>.
\<close>

theorem zero_literal_unchecked:
  assumes "cubes \<noteq> []" and "\<forall>cube \<in> set cubes. map abs cube = map abs (hd cubes)"
  shows "check_cubes (map abs (hd cubes)) cubes = Inr () \<and>
         (\<exists>tr. cubes_to_dnf eng cubes =
            (if is_dnf eng (cubes_dnf cubes) then Inr (cubes_dnf cubes) else Inl AssertionError_dnf,
             tr)) \<and>
         lit_to_expr 0 = Var (exprvar ''x'' 0) \<and>
         (0 \<in> magnitudes cubes \<longrightarrow> final_var_map cubes 0 = Some (exprvar ''x'' 0))"
proof -
  from assms(2) have a: "check_cubes (map abs (hd cubes)) cubes = Inr ()"
    by (simp only: check_cubes_Inr)
  note b = cubes_to_dnf_match [OF assms, of eng]
  have c: "lit_to_expr 0 = Var (exprvar ''x'' 0)" by (simp add: lit_to_expr_def)
  have d: "0 \<in> magnitudes cubes \<longrightarrow> final_var_map cubes 0 = Some (exprvar ''x'' 0)"
    by (simp add: final_var_map_eq)
  from a b c d show ?thesis by blast
qed

theorem zero_literal_unchecked_witness:
  "[[0, 1], [0, - 1 :: int]] \<noteq> [] \<and>
   map abs [0, 1 :: int] = map abs (hd [[0, 1], [0, - 1]]) \<and>
   map abs [0, - 1 :: int] = map abs (hd [[0, 1], [0, - 1]]) \<and>
   check_cubes (map abs (hd [[0, 1], [0, - 1]])) [[0, 1], [0, - 1]] = Inr () \<and>
   cubes_to_dnf ref_engine [[0, 1], [0, - 1]] =
     (Inr (Or [And [Var (exprvar ''x'' 0), Var (exprvar ''x'' 1)],
               And [Var (exprvar ''x'' 0), Not_e (Var (exprvar ''x'' 1))]]),
      [Exprvar_call ''x'' 0, Exprvar_call ''x'' 1])"
proof -
  have h1: "[[0, 1], [0, - 1 :: int]] \<noteq> []" by simp
  have h2: "\<forall>cube \<in> set [[0, 1], [0, - 1 :: int]]. map abs cube = map abs (hd [[0, 1], [0, - 1]])"
    by simp
  have r: "cubes_to_dnf ref_engine [[0, 1], [0, - 1]] =
     (Inr (Or [And [Var (exprvar ''x'' 0), Var (exprvar ''x'' 1)],
               And [Var (exprvar ''x'' 0), Not_e (Var (exprvar ''x'' 1))]]),
      [Exprvar_call ''x'' 0, Exprvar_call ''x'' 1])"
    by code_simp
  from zero_literal_unchecked [OF h1 h2, of ref_engine] r show ?thesis by simp
qed

end
